theory Spec2Isabelle
  imports Main "HOL-Library.Multiset" "HOL-Library.Sublist"
begin

section \<open>Common values\<close>

text \<open>
  The storage layer talks to a relational store. A table is modelled as the list of its
  rows, a prepared statement as a function on that list, and a Go function that executes
  statements as a function from the tables it touches to an error or a result together
  with the updated tables. An error stands for the Go \<open>err\<close> return; a transaction whose
  function returns an error leaves no table behind (it is rolled back by the caller).
  Failures of the connection itself are outside the model.
\<close>

datatype error =
    ErrNoRows                 \<comment> \<open>\<open>sql.ErrNoRows\<close>: \<open>QueryRow(...).Scan\<close> on an empty result\<close>
  | ScanError                 \<comment> \<open>\<open>rows.Scan\<close> of a NULL into a non-pointer Go value\<close>
  | JSONError                 \<comment> \<open>\<open>json.Unmarshal\<close> rejected the stored text\<close>
  | OutOfRange                \<comment> \<open>a BIGINT value left the signed 64-bit range\<close>
  | NegativeLimit             \<comment> \<open>\<open>LIMIT\<close> with a negative argument\<close>
  | UniqueViolation           \<comment> \<open>a unique constraint other than the arbiter was violated\<close>
  | IndexOutOfRange           \<comment> \<open>Go run-time panic: slice index out of range\<close>
  | StateNIDsMissing nat nat  \<comment> \<open>\<open>fmt.Errorf("storage: state NIDs missing ... (%d != %d)")\<close>\<close>

definition max_bigint :: int where
  "max_bigint = 9223372036854775807"


section \<open>syncapi/storage/mysql/stream\_id\_table.go\<close>

text \<open>
  Table \<open>syncapi_stream_id\<close>: \<open>stream_name\<close> is the primary key, so the table is a
  finite map from stream names to the \<open>stream_id\<close> column. The schema inserts the row
  \<open>("global", 0)\<close>.
\<close>

type_synonym stream_id_table = "string \<rightharpoonup> int"

definition streamIDTableSchema :: stream_id_table where
  "streamIDTableSchema = [''global'' \<mapsto> 0]"

text \<open>\<open>UPDATE syncapi_stream_id SET stream_id = stream_id + 1 WHERE stream_name = $1\<close>.
  An update that matches no row succeeds and changes nothing.\<close>

definition increaseStreamIDStmt :: "stream_id_table \<Rightarrow> string \<Rightarrow> error + stream_id_table" where
  "increaseStreamIDStmt t name =
     (case t name of
        None \<Rightarrow> Inr t
      | Some v \<Rightarrow> if v + 1 > max_bigint then Inl OutOfRange else Inr (t(name \<mapsto> v + 1)))"

text \<open>\<open>SELECT stream_id FROM syncapi_stream_id WHERE stream_name = $1\<close>, read with
  \<open>QueryRowContext(...).Scan(&pos)\<close>.\<close>

definition selectStreamIDStmt :: "stream_id_table \<Rightarrow> string \<Rightarrow> error + int" where
  "selectStreamIDStmt t name = (case t name of None \<Rightarrow> Inl ErrNoRows | Some v \<Rightarrow> Inr v)"

definition nextStreamID :: "stream_id_table \<Rightarrow> error + (int \<times> stream_id_table)" where
  "nextStreamID t =
     (case increaseStreamIDStmt t ''global'' of
        Inl err \<Rightarrow> Inl err
      | Inr t' \<Rightarrow>
          (case selectStreamIDStmt t' ''global'' of
             Inl err \<Rightarrow> Inl err
           | Inr pos \<Rightarrow> Inr (pos, t')))"

text \<open>\<open>n\<close> calls of \<open>nextStreamID\<close> one after the other, each on the counter the previous
  one left (the counter row's lock serialises the transactions). The positions are
  collected in the order of the calls; the first failing call fails the sequence.\<close>

fun nextStreamIDs :: "nat \<Rightarrow> stream_id_table \<Rightarrow> error + (int list \<times> stream_id_table)" where
  "nextStreamIDs 0 t = Inr ([], t)"
| "nextStreamIDs (Suc n) t =
     (case nextStreamID t of
        Inl err \<Rightarrow> Inl err
      | Inr (pos, t') \<Rightarrow>
          (case nextStreamIDs n t' of
             Inl err \<Rightarrow> Inl err
           | Inr (ps, t'') \<Rightarrow> Inr (pos # ps, t'')))"



section \<open>syncapi/storage/mysql/output\_room\_events\_table.go\<close>

subsection \<open>Values from outside the file\<close>

text \<open>
  \<open>gomatrixserverlib.HeaderedEvent\<close> is a library type; the file reads it only through the
  accessors below. \<open>Content\<close> holds the keys of the content object when \<open>json.Unmarshal\<close>
  into a \<open>map[string]interface{}\<close> accepts the content, and \<open>None\<close> when it rejects it.
\<close>

record headered_event =
  EventID :: string
  RoomID :: string
  Type :: string
  Sender :: string
  Content :: "string list option"

text \<open>\<open>api.TransactionID\<close> and \<open>types.StreamEvent\<close>.\<close>

record api_TransactionID =
  SessionID :: int
  TransactionID :: string

record StreamEvent =
  HeaderedEvent :: headered_event
  StreamPosition :: int
  EventTransactionID :: "api_TransactionID option"
  ExcludeFromSync :: bool

text \<open>
  Modelled from the spec: \<open>types.Range\<close> is declared outside the files at hand. The spec
  describes it as a pair (low, high) of stream positions whose \<open>Low()\<close> and \<open>High()\<close> give
  the bounds of the query window; the record holds those two bounds.
\<close>

record Range =
  Low :: int
  High :: int

subsection \<open>The table \<open>syncapi_output_room_events\<close>\<close>

text \<open>
  The text columns hold JSON. A stored text is modelled by what \<open>json.Unmarshal\<close> makes of
  it: the decoded value, or a text that does not decode. \<open>json.Marshal\<close> of a value yields
  a text that decodes to that value. The empty text is kept apart because
  \<open>unmarshalStateIDs\<close> tests for it. The columns \<open>add_state_ids\<close>, \<open>remove_state_ids\<close>,
  \<open>session_id\<close> and \<open>transaction_id\<close> are nullable (\<open>None\<close> is NULL). The columns \<open>id\<close>
  and \<open>type\<close> are named \<open>id_col\<close> and \<open>type_col\<close>.
\<close>

datatype event_text = EventJSON headered_event | BadEventJSON

datatype ids_text = IdsJSON "string list" | EmptyText | BadIdsJSON

record output_room_event =
  id_col :: int
  event_id :: string
  room_id :: string
  headered_event_json :: event_text
  type_col :: string
  sender :: string
  contains_url :: bool
  add_state_ids :: "ids_text option"
  remove_state_ids :: "ids_text option"
  session_id :: "int option"
  transaction_id :: "string option"
  exclude_from_sync :: bool

definition json_Marshal_event :: "headered_event \<Rightarrow> error + event_text" where
  "json_Marshal_event ev = Inr (EventJSON ev)"

fun json_Unmarshal_event :: "event_text \<Rightarrow> error + headered_event" where
  "json_Unmarshal_event (EventJSON ev) = Inr ev"
| "json_Unmarshal_event BadEventJSON = Inl JSONError"

definition json_Marshal_ids :: "string list \<Rightarrow> error + ids_text" where
  "json_Marshal_ids ids = Inr (IdsJSON ids)"


text \<open>The sync API database: the stream counter and the output log.\<close>

record syncapi_db =
  stream_ids :: stream_id_table
  output_room_events :: "output_room_event list"

subsection \<open>Statements\<close>

text \<open>
  \<open>INSERT INTO syncapi_output_room_events (...) VALUES ($1, ..., $12)
   ON CONFLICT ON CONSTRAINT syncapi_event_id_idx DO UPDATE SET exclude_from_sync = $13\<close>.
  A row with the same \<open>event_id\<close> is updated in place and nothing is inserted. Without
  such a row the new row is appended, unless its \<open>id\<close> violates the primary key, which
  the conflict clause does not cover.
\<close>

definition insertEventSQL ::
  "output_room_event list \<Rightarrow> output_room_event \<Rightarrow> bool \<Rightarrow> error + output_room_event list" where
  "insertEventSQL tbl new excl =
     (if list_ex (\<lambda>r. event_id r = event_id new) tbl
      then Inr (map (\<lambda>r. if event_id r = event_id new then r\<lparr>exclude_from_sync := excl\<rparr> else r) tbl)
      else if list_ex (\<lambda>r. id_col r = id_col new) tbl then Inl UniqueViolation
      else Inr (tbl @ [new]))"

text \<open>\<open>LIMIT $n\<close>: a negative limit is rejected by the store.\<close>

definition sql_limit :: "int \<Rightarrow> 'a list \<Rightarrow> error + 'a list" where
  "sql_limit n rows = (if n < 0 then Inl NegativeLimit else Inr (take (nat n) rows))"

text \<open>\<open>... WHERE room_id = $1 AND id > $2 AND id <= $3 ORDER BY id DESC LIMIT $4\<close>\<close>

definition selectRecentEventsSQL ::
  "output_room_event list \<Rightarrow> string \<Rightarrow> int \<Rightarrow> int \<Rightarrow> int \<Rightarrow> error + output_room_event list" where
  "selectRecentEventsSQL tbl roomID low high limit =
     sql_limit limit
       (rev (sort_key id_col
          (filter (\<lambda>r. room_id r = roomID \<and> id_col r > low \<and> id_col r \<le> high) tbl)))"

text \<open>\<open>... WHERE room_id = $1 AND id > $2 AND id <= $3 AND exclude_from_sync = FALSE
  ORDER BY id DESC LIMIT $4\<close>\<close>

definition selectRecentEventsForSyncSQL ::
  "output_room_event list \<Rightarrow> string \<Rightarrow> int \<Rightarrow> int \<Rightarrow> int \<Rightarrow> error + output_room_event list" where
  "selectRecentEventsForSyncSQL tbl roomID low high limit =
     sql_limit limit
       (rev (sort_key id_col
          (filter (\<lambda>r. room_id r = roomID \<and> id_col r > low \<and> id_col r \<le> high \<and>
                       exclude_from_sync r = False) tbl)))"

text \<open>\<open>... WHERE room_id = $1 AND id > $2 AND id <= $3 ORDER BY id ASC LIMIT $4\<close>\<close>

definition selectEarlyEventsSQL ::
  "output_room_event list \<Rightarrow> string \<Rightarrow> int \<Rightarrow> int \<Rightarrow> int \<Rightarrow> error + output_room_event list" where
  "selectEarlyEventsSQL tbl roomID low high limit =
     sql_limit limit
       (sort_key id_col
          (filter (\<lambda>r. room_id r = roomID \<and> id_col r > low \<and> id_col r \<le> high) tbl))"


subsection \<open>unmarshalStateIDs\<close>


subsection \<open>SelectStateInRange\<close>






subsection \<open>InsertEvent\<close>

text \<open>
  \<open>containsURL\<close> starts \<open>false\<close> and is assigned only when \<open>json.Unmarshal\<close> of the content
  returns an error, from a lookup of \<open>"url"\<close> in the map that the failed call left empty.
\<close>

definition containsURL :: "headered_event \<Rightarrow> bool" where
  "containsURL ev = (case Content ev of None \<Rightarrow> ''url'' \<in> set [] | Some ks \<Rightarrow> False)"

definition InsertEvent ::
  "syncapi_db \<Rightarrow> headered_event \<Rightarrow> string list \<Rightarrow> string list \<Rightarrow> api_TransactionID option \<Rightarrow> bool
     \<Rightarrow> error + (int \<times> syncapi_db)" where
  "InsertEvent db event addState removeState transactionID excludeFromSync =
     (let sessionID = map_option SessionID transactionID;
          txnID = map_option TransactionID transactionID
      in case json_Marshal_event event of
           Inl err \<Rightarrow> Inl err
         | Inr headeredJSON \<Rightarrow>
        (case nextStreamID (stream_ids db) of
           Inl err \<Rightarrow> Inl err
         | Inr (streamPos, ids') \<Rightarrow>
        (case json_Marshal_ids addState of
           Inl err \<Rightarrow> Inl err
         | Inr addStateJSON \<Rightarrow>
        (case json_Marshal_ids removeState of
           Inl err \<Rightarrow> Inl err
         | Inr removeStateJSON \<Rightarrow>
        (case insertEventSQL (output_room_events db)
                \<lparr>id_col = streamPos, event_id = EventID event, room_id = RoomID event,
                 headered_event_json = headeredJSON, type_col = Type event,
                 sender = Sender event, contains_url = containsURL event,
                 add_state_ids = Some addStateJSON, remove_state_ids = Some removeStateJSON,
                 session_id = sessionID, transaction_id = txnID,
                 exclude_from_sync = excludeFromSync\<rparr>
                excludeFromSync of
           Inl err \<Rightarrow> Inl err
         | Inr tbl' \<Rightarrow> Inr (streamPos, \<lparr>stream_ids = ids', output_room_events = tbl'\<rparr>))))))"

subsection \<open>rowsToStreamEvents, SelectRecentEvents, SelectEarlyEvents\<close>

definition rowToStreamEvent :: "output_room_event \<Rightarrow> error + StreamEvent" where
  "rowToStreamEvent r =
     (case json_Unmarshal_event (headered_event_json r) of
        Inl err \<Rightarrow> Inl err
      | Inr ev \<Rightarrow>
          Inr \<lparr>HeaderedEvent = ev, StreamPosition = id_col r,
               EventTransactionID =
                 (case (session_id r, transaction_id r) of
                    (Some sessionID, Some txnID) \<Rightarrow>
                      Some \<lparr>SessionID = sessionID, TransactionID = txnID\<rparr>
                  | _ \<Rightarrow> None),
               ExcludeFromSync = exclude_from_sync r\<rparr>)"

fun rowsToStreamEvents_loop :: "output_room_event list \<Rightarrow> StreamEvent list \<Rightarrow> error + StreamEvent list" where
  "rowsToStreamEvents_loop [] result = Inr result"
| "rowsToStreamEvents_loop (r # rows) result =
     (case rowToStreamEvent r of
        Inl err \<Rightarrow> Inl err
      | Inr e \<Rightarrow> rowsToStreamEvents_loop rows (result @ [e]))"

definition rowsToStreamEvents :: "output_room_event list \<Rightarrow> error + StreamEvent list" where
  "rowsToStreamEvents rows = rowsToStreamEvents_loop rows []"

text \<open>\<open>sort.SliceStable\<close> by \<open>StreamPosition\<close> is the stable \<open>sort_key\<close>.\<close>

definition SelectRecentEvents ::
  "output_room_event list \<Rightarrow> string \<Rightarrow> Range \<Rightarrow> int \<Rightarrow> bool \<Rightarrow> bool \<Rightarrow> error + StreamEvent list" where
  "SelectRecentEvents tbl roomID r limit chronologicalOrder onlySyncEvents =
     (case (if onlySyncEvents
            then selectRecentEventsForSyncSQL tbl roomID (Low r) (High r) limit
            else selectRecentEventsSQL tbl roomID (Low r) (High r) limit) of
        Inl err \<Rightarrow> Inl err
      | Inr rows \<Rightarrow>
          (case rowsToStreamEvents rows of
             Inl err \<Rightarrow> Inl err
           | Inr events \<Rightarrow>
               Inr (if chronologicalOrder then sort_key StreamPosition events else events)))"

definition SelectEarlyEvents ::
  "output_room_event list \<Rightarrow> string \<Rightarrow> Range \<Rightarrow> int \<Rightarrow> error + StreamEvent list" where
  "SelectEarlyEvents tbl roomID r limit =
     (case selectEarlyEventsSQL tbl roomID (Low r) (High r) limit of
        Inl err \<Rightarrow> Inl err
      | Inr rows \<Rightarrow>
          (case rowsToStreamEvents rows of
             Inl err \<Rightarrow> Inl err
           | Inr events \<Rightarrow> Inr (sort_key StreamPosition events)))"


subsection \<open>Reading the log\<close>

text \<open>The rows that the query of \<open>SelectRecentEvents\<close> returns, in scan order.\<close>

definition recentRows :: "output_room_event list \<Rightarrow> string \<Rightarrow> Range \<Rightarrow> int \<Rightarrow> bool \<Rightarrow> error + output_room_event list" where
  "recentRows tbl roomID r limit onlySyncEvents =
     (if onlySyncEvents
      then selectRecentEventsForSyncSQL tbl roomID (Low r) (High r) limit
      else selectRecentEventsSQL tbl roomID (Low r) (High r) limit)"






text \<open>A row as \<open>InsertEvent\<close> writes it: the event text decodes, and both lists are present
  and decode.\<close>

definition row_ok :: "output_room_event \<Rightarrow> bool" where
  "row_ok r \<longleftrightarrow>
     headered_event_json r \<noteq> BadEventJSON \<and>
     add_state_ids r \<noteq> None \<and> add_state_ids r \<noteq> Some BadIdsJSON \<and>
     remove_state_ids r \<noteq> None \<and> remove_state_ids r \<noteq> Some BadIdsJSON"

text \<open>The row that \<open>InsertEvent\<close> hands to its statement.\<close>

definition inserted_row ::
  "int \<Rightarrow> headered_event \<Rightarrow> string list \<Rightarrow> string list \<Rightarrow> api_TransactionID option \<Rightarrow> bool \<Rightarrow> output_room_event" where
  "inserted_row pos event addState removeState transactionID excludeFromSync =
     \<lparr>id_col = pos, event_id = EventID event, room_id = RoomID event,
      headered_event_json = EventJSON event, type_col = Type event,
      sender = Sender event, contains_url = containsURL event,
      add_state_ids = Some (IdsJSON addState), remove_state_ids = Some (IdsJSON removeState),
      session_id = map_option SessionID transactionID,
      transaction_id = map_option TransactionID transactionID,
      exclude_from_sync = excludeFromSync\<rparr>"

subsection \<open>A sample log\<close>

definition sample_event :: "string \<Rightarrow> string \<Rightarrow> headered_event" where
  "sample_event e rm =
     \<lparr>EventID = e, RoomID = rm, Type = ''m.room.message'', Sender = ''@alice:hs'',
      Content = Some []\<rparr>"

definition sample_row :: "int \<Rightarrow> string \<Rightarrow> string \<Rightarrow> string list \<Rightarrow> string list \<Rightarrow> output_room_event" where
  "sample_row i e rm adds dels =
     \<lparr>id_col = i, event_id = e, room_id = rm,
      headered_event_json = EventJSON (sample_event e rm),
      type_col = ''m.room.message'', sender = ''@alice:hs'', contains_url = False,
      add_state_ids = Some (IdsJSON adds), remove_state_ids = Some (IdsJSON dels),
      session_id = None, transaction_id = None, exclude_from_sync = False\<rparr>"

definition sample_log :: "output_room_event list" where
  "sample_log =
     [sample_row 1 ''$a'' ''!r'' [] [], sample_row 2 ''$b'' ''!q'' [] [],
      sample_row 3 ''$c'' ''!r'' [] [], sample_row 4 ''$d'' ''!r'' [] []]"





text \<open>The database right after the schemas were executed.\<close>

definition empty_db :: syncapi_db where
  "empty_db = \<lparr>stream_ids = streamIDTableSchema, output_room_events = []\<rparr>"



section \<open>roomserver/storage/mysql/rooms\_table.go\<close>

text \<open>
  Table \<open>roomserver_rooms\<close>. The column \<open>room_id\<close> is named \<open>rooms_room_id\<close> here, since the
  output log has a column of the same name. \<open>latest_event_nids\<close> is a text column. The
  table carries the next value of its \<open>AUTO_INCREMENT\<close> counter.
\<close>

record room_row =
  room_nid :: int
  rooms_room_id :: string
  latest_event_nids :: string
  last_event_sent_nid :: int
  state_snapshot_nid :: int
  room_version :: string

record rooms_table =
  rooms :: "room_row list"
  rooms_auto_increment :: int

text \<open>
  \<open>INSERT INTO roomserver_rooms (room_id, room_version) VALUES ($1, $2) ON CONFLICT DO
  NOTHING\<close>. The other columns take their defaults. The conflict clause names no
  constraint, so a clash on either unique column skips the insert. A skipped insert is
  modelled as not consuming a counter value.
\<close>

definition insertRoomNIDSQL :: "rooms_table \<Rightarrow> string \<Rightarrow> string \<Rightarrow> error + rooms_table" where
  "insertRoomNIDSQL t roomID roomVersion =
     (if list_ex (\<lambda>r. rooms_room_id r = roomID) (rooms t) then Inr t
      else if rooms_auto_increment t > max_bigint then Inl OutOfRange
      else if list_ex (\<lambda>r. room_nid r = rooms_auto_increment t) (rooms t) then Inr t
      else Inr \<lparr>rooms = rooms t @
                   [\<lparr>room_nid = rooms_auto_increment t, rooms_room_id = roomID,
                     latest_event_nids = ''[]'', last_event_sent_nid = 0,
                     state_snapshot_nid = 0, room_version = roomVersion\<rparr>],
                 rooms_auto_increment = rooms_auto_increment t + 1\<rparr>)"

text \<open>\<open>SELECT room_nid FROM roomserver_rooms WHERE room_id = $1\<close>, read with
  \<open>QueryRowContext(...).Scan\<close>, which takes the first row.\<close>

definition SelectRoomNID :: "rooms_table \<Rightarrow> string \<Rightarrow> error + int" where
  "SelectRoomNID t roomID =
     (case filter (\<lambda>r. rooms_room_id r = roomID) (rooms t) of
        [] \<Rightarrow> Inl ErrNoRows
      | r # _ \<Rightarrow> Inr (room_nid r))"

definition InsertRoomNID :: "rooms_table \<Rightarrow> string \<Rightarrow> string \<Rightarrow> error + (int \<times> rooms_table)" where
  "InsertRoomNID t roomID roomVersion =
     (case insertRoomNIDSQL t roomID roomVersion of
        Inl err \<Rightarrow> Inl err
      | Inr t' \<Rightarrow>
          (case SelectRoomNID t' roomID of
             Inl err \<Rightarrow> Inl err
           | Inr nid \<Rightarrow> Inr (nid, t')))"

text \<open>
  \<open>UPDATE roomserver_rooms SET latest_event_nids = $2, last_event_sent_nid = $3,
  state_snapshot_nid = $4 WHERE room_nid = $1\<close>. The helper \<open>eventNIDsAsArray\<close> is declared
  in another file of the package and is a parameter here.
\<close>

definition UpdateLatestEventNIDs ::
  "(int list \<Rightarrow> string) \<Rightarrow> rooms_table \<Rightarrow> int \<Rightarrow> int list \<Rightarrow> int \<Rightarrow> int \<Rightarrow> rooms_table" where
  "UpdateLatestEventNIDs eventNIDsAsArray t roomNID eventNIDs lastEventSentNID stateSnapshotNID =
     t\<lparr>rooms :=
         map (\<lambda>r. if room_nid r = roomNID
                  then r\<lparr>latest_event_nids := eventNIDsAsArray eventNIDs,
                         last_event_sent_nid := lastEventSentNID,
                         state_snapshot_nid := stateSnapshotNID\<rparr>
                  else r) (rooms t)\<rparr>"

text \<open>
  Calls on the rooms table by any number of callers, in the order in which their
  transactions take effect. A call that fails leaves the table as it was.
\<close>

datatype rooms_call =
    CallInsertRoomNID string string
  | CallUpdateLatestEventNIDs int "int list" int int

fun rooms_after :: "(int list \<Rightarrow> string) \<Rightarrow> rooms_table \<Rightarrow> rooms_call \<Rightarrow> rooms_table" where
  "rooms_after f t (CallInsertRoomNID roomID roomVersion) =
     (case InsertRoomNID t roomID roomVersion of Inl err \<Rightarrow> t | Inr (nid, t') \<Rightarrow> t')"
| "rooms_after f t (CallUpdateLatestEventNIDs roomNID eventNIDs lastEventSentNID stateSnapshotNID) =
     UpdateLatestEventNIDs f t roomNID eventNIDs lastEventSentNID stateSnapshotNID"

text \<open>The first row of a room ID, which is the row \<open>SelectRoomNID\<close> reads.\<close>

definition room_of_id :: "rooms_table \<Rightarrow> string \<Rightarrow> room_row option" where
  "room_of_id t roomID = find (\<lambda>r. rooms_room_id r = roomID) (rooms t)"

text \<open>The columns of a row that no statement of the file assigns after the insert.\<close>

definition room_key :: "room_row \<Rightarrow> int \<times> string \<times> string" where
  "room_key r = (room_nid r, rooms_room_id r, room_version r)"

definition empty_rooms :: rooms_table where
  "empty_rooms = \<lparr>rooms = [], rooms_auto_increment = 1\<rparr>"


text \<open>Sample tables: one room, and two rooms.\<close>

definition one_room :: rooms_table where
  "one_room =
     \<lparr>rooms =
        [\<lparr>room_nid = 1, rooms_room_id = ''!r'', latest_event_nids = ''[]'', last_event_sent_nid = 0,
          state_snapshot_nid = 0, room_version = ''5''\<rparr>],
      rooms_auto_increment = 2\<rparr>"

definition two_rooms :: rooms_table where
  "two_rooms =
     \<lparr>rooms =
        [\<lparr>room_nid = 1, rooms_room_id = ''!r'', latest_event_nids = ''[]'', last_event_sent_nid = 0,
          state_snapshot_nid = 0, room_version = ''5''\<rparr>,
         \<lparr>room_nid = 2, rooms_room_id = ''!q'', latest_event_nids = ''[]'', last_event_sent_nid = 0,
          state_snapshot_nid = 0, room_version = ''6''\<rparr>],
      rooms_auto_increment = 3\<rparr>"


section \<open>roomserver/storage/sqlite3: the state snapshot table\<close>

text \<open>
  Table \<open>roomserver_state_snapshots\<close>. \<open>state_snapshot_nid\<close> (named \<open>snapshot_nid\<close> here) is
  declared \<open>INTEGER PRIMARY KEY AUTOINCREMENT\<close>, so it is the row id, and the store keeps the
  largest row id ever used (\<open>sqlite_sequence\<close>). \<open>room_nid\<close> is named \<open>snapshot_room_nid\<close>.
  \<open>state_block_nids\<close> is a text column that is written from and scanned into a
  \<open>pq.Int64Array\<close>: the text of an array, or a text that does not scan.
\<close>

datatype int64array_text = Int64ArrayText "int list" | BadArrayText

record state_snapshot_row =
  snapshot_nid :: int
  snapshot_room_nid :: int
  state_block_nids :: int64array_text

record snapshots_table =
  state_snapshots :: "state_snapshot_row list"
  sqlite_sequence :: int

text \<open>\<open>types.StateBlockNIDList\<close>\<close>

record StateBlockNIDList =
  StateSnapshotNID :: int
  StateBlockNIDs :: "int list"

text \<open>
  A value bound to a placeholder of a statement: an integer, or a text. The only texts
  bound in this file are those a \<open>pq.Int64Array\<close> hands to the driver, the array written
  between braces (\<open>{1,2,3}\<close>), so a text is modelled by the array it spells.
\<close>

datatype sql_value = SqlInteger int | SqlArrayText "int list"

definition pq_Int64Array :: "int list \<Rightarrow> sql_value" where
  "pq_Int64Array nids = SqlArrayText nids"

text \<open>The integer column \<open>state_snapshot_nid\<close> compared with a bound value. A text that
  starts with a brace is no numeral, and equals no integer.\<close>

fun integer_equals :: "int \<Rightarrow> sql_value \<Rightarrow> bool" where
  "integer_equals n (SqlInteger m) = (n = m)"
| "integer_equals n (SqlArrayText a) = False"

text \<open>
  \<open>INSERT INTO roomserver_state_snapshots (room_nid, state_block_nids) VALUES ($1, $2);
  SELECT state_snapshot_nid FROM roomserver_state_snapshots WHERE rowid = last_insert_rowid()\<close>.
  The text holds two statements and is prepared once, in \<open>prepare\<close>. Preparing a text
  compiles its first statement only, so the prepared statement is the \<open>INSERT\<close>: executing
  it stores the row and yields no result row; the \<open>SELECT\<close> is never run. The new row id is
  one above the largest ever used; the insert fails when none is left. The result is the
  list of \<open>state_snapshot_nid\<close> values the statement returns, and the table.
\<close>

definition insertStateSQL ::
  "snapshots_table \<Rightarrow> int \<Rightarrow> sql_value \<Rightarrow> error + (int list \<times> snapshots_table)" where
  "insertStateSQL t roomNID arg2 =
     (if sqlite_sequence t \<ge> max_bigint then Inl OutOfRange
      else
        (let rowid = sqlite_sequence t + 1 in
         if list_ex (\<lambda>r. snapshot_nid r = rowid) (state_snapshots t) then Inl UniqueViolation
         else
           Inr ([],
                \<lparr>state_snapshots = state_snapshots t @
                   [\<lparr>snapshot_nid = rowid, snapshot_room_nid = roomNID,
                     state_block_nids =
                       (case arg2 of SqlArrayText nids \<Rightarrow> Int64ArrayText nids
                                   | SqlInteger n \<Rightarrow> BadArrayText)\<rparr>],
                 sqlite_sequence = rowid\<rparr>)))"

text \<open>
  \<open>insertState\<close> runs the statement on the database itself, outside any transaction, so
  what the statement stored stays stored when \<open>Scan\<close> fails: the function is modelled as
  returning its result or error together with the table it leaves.
\<close>

definition insertState ::
  "snapshots_table \<Rightarrow> int \<Rightarrow> int list \<Rightarrow> (error + int) \<times> snapshots_table" where
  "insertState t roomNID stateBlockNIDs =
     (let nids = map (\<lambda>n. n) stateBlockNIDs
      in case insertStateSQL t roomNID (pq_Int64Array nids) of
           Inl err \<Rightarrow> (Inl err, t)
         | Inr (rows, t') \<Rightarrow>
             (case rows of
                [] \<Rightarrow> (Inl ErrNoRows, t')
              | stateNID # _ \<Rightarrow> (Inr stateNID, t')))"

text \<open>\<open>SELECT state_snapshot_nid, state_block_nids FROM roomserver_state_snapshots
  WHERE state_snapshot_nid IN ($1) ORDER BY state_snapshot_nid ASC\<close>. The list of \<open>IN\<close>
  has the one placeholder, and a row matches when its NID equals the value bound to it.\<close>

definition bulkSelectStateBlockNIDsSQL :: "snapshots_table \<Rightarrow> sql_value \<Rightarrow> state_snapshot_row list" where
  "bulkSelectStateBlockNIDsSQL t arg1 =
     sort_key snapshot_nid
       (filter (\<lambda>r. list_ex (integer_equals (snapshot_nid r)) [arg1]) (state_snapshots t))"

text \<open>The loop \<open>for ; rows.Next(); i++\<close>: \<open>&results[i]\<close> panics past the end of the slice;
  the scan writes the row into \<open>results[i]\<close>.\<close>

fun bulkSelect_rows ::
  "state_snapshot_row list \<Rightarrow> nat \<Rightarrow> StateBlockNIDList list \<Rightarrow> error + (nat \<times> StateBlockNIDList list)" where
  "bulkSelect_rows [] i results = Inr (i, results)"
| "bulkSelect_rows (r # rows) i results =
     (if i \<ge> length results then Inl IndexOutOfRange
      else
        (case state_block_nids r of
           BadArrayText \<Rightarrow> Inl ScanError
         | Int64ArrayText stateBlockNIDs \<Rightarrow>
             bulkSelect_rows rows (i + 1)
               (results[i := \<lparr>StateSnapshotNID = snapshot_nid r,
                              StateBlockNIDs = map (\<lambda>n. n) stateBlockNIDs\<rparr>])))"

text \<open>The call binds the whole slice, as one \<open>pq.Int64Array\<close>, to the placeholder.\<close>

definition bulkSelectStateBlockNIDs :: "snapshots_table \<Rightarrow> int list \<Rightarrow> error + StateBlockNIDList list" where
  "bulkSelectStateBlockNIDs t stateNIDs =
     (let nids = map (\<lambda>n. n) stateNIDs
      in case bulkSelect_rows (bulkSelectStateBlockNIDsSQL t (pq_Int64Array nids)) 0
                (replicate (length stateNIDs) \<lparr>StateSnapshotNID = 0, StateBlockNIDs = []\<rparr>) of
           Inl err \<Rightarrow> Inl err
         | Inr (i, results) \<Rightarrow>
             if i \<noteq> length stateNIDs then Inl (StateNIDsMissing i (length stateNIDs))
             else Inr results)"

text \<open>The stored snapshot NIDs.\<close>

definition stored_nids :: "snapshots_table \<Rightarrow> int set" where
  "stored_nids t = set (map snapshot_nid (state_snapshots t))"

text \<open>Sample tables: the table right after the schema was executed, and a table with the
  snapshot 5.\<close>

definition empty_snapshots :: snapshots_table where
  "empty_snapshots = \<lparr>state_snapshots = [], sqlite_sequence = 0\<rparr>"

definition one_snapshot :: snapshots_table where
  "one_snapshot =
     \<lparr>state_snapshots =
        [\<lparr>snapshot_nid = 5, snapshot_room_nid = 1, state_block_nids = Int64ArrayText [4, 9]\<rparr>],
      sqlite_sequence = 5\<rparr>"


section \<open>Stream positions\<close>

lemma nextStreamID_Inr:
  "nextStreamID t = Inr (pos, t') \<longleftrightarrow>
     (\<exists>v. t ''global'' = Some v \<and> v + 1 \<le> max_bigint \<and> pos = v + 1 \<and> t' = t(''global'' \<mapsto> v + 1))"
  by (auto simp: nextStreamID_def increaseStreamIDStmt_def selectStreamIDStmt_def
           split: option.splits sum.splits if_splits)

lemma nextStreamIDs_Suc_Inr:
  "nextStreamIDs (Suc n) t = Inr (ps, t') \<longleftrightarrow>
     (\<exists>pos t1 qs. nextStreamID t = Inr (pos, t1) \<and> nextStreamIDs n t1 = Inr (qs, t') \<and>
        ps = pos # qs)"
  by (auto split: sum.splits prod.splits)

lemma nextStreamIDs_positions:
  "nextStreamIDs n t = Inr (ps, t') \<Longrightarrow> 0 < n \<Longrightarrow>
     \<exists>c. t ''global'' = Some c \<and> ps = map (\<lambda>i. c + 1 + int i) [0..<n] \<and>
         t' = t(''global'' \<mapsto> c + int n)"
proof (induction n arbitrary: t ps t')
  case 0
  then show ?case by simp
next
  case (Suc n)
  from Suc.prems(1) obtain pos t1 qs where
    step: "nextStreamID t = Inr (pos, t1)" and
    rest: "nextStreamIDs n t1 = Inr (qs, t')" and ps: "ps = pos # qs"
    unfolding nextStreamIDs_Suc_Inr by blast
  from step obtain c where c: "t ''global'' = Some c" "pos = c + 1"
    "t1 = t(''global'' \<mapsto> c + 1)"
    unfolding nextStreamID_Inr by blast
  show ?case
  proof (cases n)
    case 0
    with rest have "qs = []" "t' = t1" by simp_all
    with ps c 0 show ?thesis by simp
  next
    case (Suc m)
    then have "0 < n" by simp
    from Suc.IH [OF rest this] obtain d where d: "t1 ''global'' = Some d"
      "qs = map (\<lambda>i. d + 1 + int i) [0..<n]" "t' = t1(''global'' \<mapsto> d + int n)"
      by blast
    from d(1) c(3) have dc: "d = c + 1" by simp
    have "map (\<lambda>i. c + 1 + int i) [0..<Suc n] =
            (c + 1 + int 0) # map (\<lambda>i. c + 1 + int (Suc i)) [0..<n]"
      by (rule map_upt_Suc)
    also have "\<dots> = pos # qs"
      unfolding d(2) dc c(2) by simp
    finally have A: "ps = map (\<lambda>i. c + 1 + int i) [0..<Suc n]"
      using ps by simp
    have e: "c + int (Suc n) = d + int n"
      using dc by simp
    have "t' = t(''global'' \<mapsto> d + int n)"
      using d(3) c(3) by simp
    then have B: "t' = t(''global'' \<mapsto> c + int (Suc n))"
      unfolding e .
    from c(1) A B show ?thesis by blast
  qed
qed

lemma nextStreamIDs_split:
  "nextStreamIDs (i + k) t = Inr (ps, t') \<Longrightarrow>
     \<exists>ti. nextStreamIDs i t = Inr (take i ps, ti) \<and> nextStreamIDs k ti = Inr (drop i ps, t')"
proof (induction i arbitrary: t ps)
  case 0
  then show ?case by simp
next
  case (Suc i)
  from Suc.prems have "nextStreamIDs (Suc (i + k)) t = Inr (ps, t')" by simp
  then obtain pos t1 qs where
    step: "nextStreamID t = Inr (pos, t1)" and
    rest: "nextStreamIDs (i + k) t1 = Inr (qs, t')" and ps: "ps = pos # qs"
    unfolding nextStreamIDs_Suc_Inr by blast
  from Suc.IH [OF rest] obtain ti where
    "nextStreamIDs i t1 = Inr (take i qs, ti)" "nextStreamIDs k ti = Inr (drop i qs, t')"
    by blast
  with step ps show ?case by simp
qed

text \<open>
  C3. In every sequence of \<open>n\<close> successful calls of \<open>nextStreamID\<close>, the \<open>i\<close>-th call finds
  the counter at \<open>c + i\<close>, leaves it at \<open>c + i + 1\<close> and returns \<open>c + i + 1\<close>; hence the
  returned positions are strictly increasing and pairwise distinct, and the counter ends
  \<open>n\<close> above where it started.
\<close>

theorem nextStreamID_strictly_increasing:
  assumes "nextStreamIDs n t = Inr (ps, t')" and "0 < n"
  shows "\<exists>c. t ''global'' = Some c \<and> t' ''global'' = Some (c + int n) \<and> length ps = n \<and>
           (\<forall>i<n. \<exists>ti tj. nextStreamIDs i t = Inr (take i ps, ti) \<and>
                          ti ''global'' = Some (c + int i) \<and>
                          nextStreamID ti = Inr (ps ! i, tj) \<and>
                          tj ''global'' = Some (c + int i + 1) \<and>
                          ps ! i = c + int i + 1) \<and>
           sorted_wrt (<) ps \<and> distinct ps"
proof -
  from nextStreamIDs_positions [OF assms] obtain c where
    c: "t ''global'' = Some c" "ps = map (\<lambda>i. c + 1 + int i) [0..<n]"
       "t' = t(''global'' \<mapsto> c + int n)"
    by blast
  have len: "length ps = n" using c(2) by simp
  have nth: "ps ! i = c + int i + 1" if "i < n" for i
    using c(2) that by simp
  have calls: "\<exists>ti tj. nextStreamIDs i t = Inr (take i ps, ti) \<and>
                  ti ''global'' = Some (c + int i) \<and>
                  nextStreamID ti = Inr (ps ! i, tj) \<and>
                  tj ''global'' = Some (c + int i + 1) \<and>
                  ps ! i = c + int i + 1" if i: "i < n" for i
  proof -
    from i have "n = i + (n - i)" by simp
    with assms(1) have "nextStreamIDs (i + (n - i)) t = Inr (ps, t')" by simp
    from nextStreamIDs_split [OF this] obtain ti where
      ti: "nextStreamIDs i t = Inr (take i ps, ti)" "nextStreamIDs (n - i) ti = Inr (drop i ps, t')"
      by blast
    have tig: "ti ''global'' = Some (c + int i)"
    proof (cases i)
      case 0
      with ti(1) c(1) show ?thesis by simp
    next
      case (Suc j)
      then have "0 < i" by simp
      from nextStreamIDs_positions [OF ti(1) this] c(1) show ?thesis by auto
    qed
    from i obtain m where m: "n - i = Suc m" by (cases "n - i") auto
    from ti(2) [unfolded m] obtain pos tj qs where
      step: "nextStreamID ti = Inr (pos, tj)" and "drop i ps = pos # qs"
      unfolding nextStreamIDs_Suc_Inr by blast
    then have "pos = ps ! i"
      using i len by (metis Cons_nth_drop_Suc list.inject)
    with step have step': "nextStreamID ti = Inr (ps ! i, tj)" by simp
    from step' tig have "tj ''global'' = Some (c + int i + 1)"
      unfolding nextStreamID_Inr by auto
    with ti(1) tig step' nth [OF i] show ?thesis by blast
  qed
  have "sorted_wrt (<) ps"
    unfolding c(2) by (simp add: sorted_wrt_map sorted_wrt_iff_nth_less)
  moreover have "distinct ps"
    unfolding c(2) by (simp add: distinct_map inj_on_def)
  ultimately show ?thesis using c len calls by auto
qed

theorem nextStreamID_strictly_increasing_witness:
  "nextStreamIDs 3 streamIDTableSchema = Inr ([1, 2, 3], [''global'' \<mapsto> 3]) \<and>
   (\<exists>c. streamIDTableSchema ''global'' = Some c \<and> sorted_wrt (<) [1, 2, 3::int] \<and> distinct [1, 2, 3::int])"
proof -
  have run: "nextStreamIDs 3 streamIDTableSchema = Inr ([1, 2, 3], [''global'' \<mapsto> 3])"
    by (simp add: numeral_3_eq_3 nextStreamID_def increaseStreamIDStmt_def selectStreamIDStmt_def
        streamIDTableSchema_def max_bigint_def)
  from nextStreamID_strictly_increasing [OF run] run show ?thesis by auto
qed


section \<open>Range scans of the output log\<close>

lemma rowsToStreamEvents_loop_Inr:
  "rowsToStreamEvents_loop rows acc = Inr es \<longleftrightarrow>
     (\<exists>es'. es = acc @ es' \<and> list_all2 (\<lambda>r e. rowToStreamEvent r = Inr e) rows es')"
proof (induction rows arbitrary: acc)
  case Nil
  then show ?case by auto
next
  case (Cons r rows)
  show ?case
  proof (cases "rowToStreamEvent r")
    case (Inl err)
    then show ?thesis by (auto simp: list_all2_Cons1)
  next
    case (Inr e)
    then show ?thesis
      by (auto simp: Cons.IH list_all2_Cons1)
  qed
qed

lemma rowsToStreamEvents_Inr:
  "rowsToStreamEvents rows = Inr es \<longleftrightarrow> list_all2 (\<lambda>r e. rowToStreamEvent r = Inr e) rows es"
  by (simp add: rowsToStreamEvents_def rowsToStreamEvents_loop_Inr)

lemma rowToStreamEvent_position:
  "rowToStreamEvent r = Inr e \<Longrightarrow> StreamPosition e = id_col r"
  by (auto simp: rowToStreamEvent_def split: sum.splits)

lemma rows_events_positions:
  "list_all2 (\<lambda>r e. rowToStreamEvent r = Inr e) rows es \<Longrightarrow> map StreamPosition es = map id_col rows"
  by (induction rule: list_all2_induct) (auto dest: rowToStreamEvent_position)

lemma sql_limit_Inr:
  "sql_limit n rows = Inr rs \<longleftrightarrow> 0 \<le> n \<and> rs = take (nat n) rows"
  by (auto simp: sql_limit_def)

lemma sorted_rev_take_rev_sort:
  "sorted (rev (map f (take n (rev (sort_key f xs)))))"
proof -
  have "sorted (map f (sort_key f xs))" by simp
  then have "sorted (rev (map f (rev (sort_key f xs))))" by (simp add: rev_map)
  then have "sorted (rev (take n (map f (rev (sort_key f xs)))))"
    by (metis sorted_wrt_take sorted_wrt_rev)
  then show ?thesis by (simp add: take_map)
qed

lemma SelectRecentEvents_Inr:
  "SelectRecentEvents tbl roomID r limit chron onlySync = Inr es \<longleftrightarrow>
     (\<exists>rows evs. recentRows tbl roomID r limit onlySync = Inr rows \<and>
        list_all2 (\<lambda>r e. rowToStreamEvent r = Inr e) rows evs \<and>
        es = (if chron then sort_key StreamPosition evs else evs))"
  unfolding rowsToStreamEvents_Inr [symmetric] SelectRecentEvents_def recentRows_def
  by (auto split: sum.splits)

lemma SelectEarlyEvents_Inr:
  "SelectEarlyEvents tbl roomID r limit = Inr es \<longleftrightarrow>
     (\<exists>rows evs. selectEarlyEventsSQL tbl roomID (Low r) (High r) limit = Inr rows \<and>
        list_all2 (\<lambda>r e. rowToStreamEvent r = Inr e) rows evs \<and>
        es = sort_key StreamPosition evs)"
  unfolding rowsToStreamEvents_Inr [symmetric] SelectEarlyEvents_def
  by (auto split: sum.splits)

lemma recentRows_descending:
  "recentRows tbl roomID r limit onlySync = Inr rows \<Longrightarrow> sorted (rev (map id_col rows))"
  by (auto simp: recentRows_def selectRecentEventsSQL_def selectRecentEventsForSyncSQL_def
      sql_limit_Inr sorted_rev_take_rev_sort split: if_splits)

text \<open>
  C5. \<open>SelectRecentEvents\<close> with \<open>chronologicalOrder\<close> set and \<open>SelectEarlyEvents\<close> return
  their events in ascending stream position. With \<open>chronologicalOrder\<close> unset,
  \<open>SelectRecentEvents\<close> returns the events of the rows exactly as scanned, newest first,
  and the chronological result is the stable sort of that list.
\<close>

theorem select_events_order:
  "(SelectRecentEvents tbl roomID r limit True onlySync = Inr es1 \<longrightarrow>
      sorted (map StreamPosition es1)) \<and>
   (SelectEarlyEvents tbl roomID r limit = Inr es2 \<longrightarrow>
      sorted (map StreamPosition es2)) \<and>
   (SelectRecentEvents tbl roomID r limit False onlySync = Inr es3 \<longrightarrow>
      sorted (rev (map StreamPosition es3)) \<and>
      (\<exists>rows. recentRows tbl roomID r limit onlySync = Inr rows \<and>
          list_all2 (\<lambda>r e. rowToStreamEvent r = Inr e) rows es3) \<and>
      SelectRecentEvents tbl roomID r limit True onlySync = Inr (sort_key StreamPosition es3))"
proof (intro conjI impI)
  assume "SelectRecentEvents tbl roomID r limit True onlySync = Inr es1"
  then show "sorted (map StreamPosition es1)"
    unfolding SelectRecentEvents_Inr by auto
next
  assume "SelectEarlyEvents tbl roomID r limit = Inr es2"
  then show "sorted (map StreamPosition es2)"
    unfolding SelectEarlyEvents_Inr by auto
next
  assume a: "SelectRecentEvents tbl roomID r limit False onlySync = Inr es3"
  then obtain rows where rows: "recentRows tbl roomID r limit onlySync = Inr rows"
    "list_all2 (\<lambda>r e. rowToStreamEvent r = Inr e) rows es3"
    unfolding SelectRecentEvents_Inr by auto
  from rows(2) have "map StreamPosition es3 = map id_col rows"
    by (rule rows_events_positions)
  with recentRows_descending [OF rows(1)]
  show "sorted (rev (map StreamPosition es3))" by simp
  from rows show "\<exists>rows. recentRows tbl roomID r limit onlySync = Inr rows \<and>
          list_all2 (\<lambda>r e. rowToStreamEvent r = Inr e) rows es3" by blast
  from rows show "SelectRecentEvents tbl roomID r limit True onlySync = Inr (sort_key StreamPosition es3)"
    unfolding SelectRecentEvents_Inr by auto
qed

theorem select_events_order_witness:
  "\<exists>es1 es2 es3.
     SelectRecentEvents sample_log ''!r'' \<lparr>Low = 0, High = 4\<rparr> 2 True False = Inr es1 \<and>
     map StreamPosition es1 = [3, 4] \<and> sorted (map StreamPosition es1) \<and>
     SelectEarlyEvents sample_log ''!r'' \<lparr>Low = 0, High = 4\<rparr> 2 = Inr es2 \<and>
     map StreamPosition es2 = [1, 3] \<and> sorted (map StreamPosition es2) \<and>
     SelectRecentEvents sample_log ''!r'' \<lparr>Low = 0, High = 4\<rparr> 2 False False = Inr es3 \<and>
     map StreamPosition es3 = [4, 3] \<and> sorted (rev (map StreamPosition es3))"
proof -
  obtain es1 where e1: "SelectRecentEvents sample_log ''!r'' \<lparr>Low = 0, High = 4\<rparr> 2 True False = Inr es1"
    and p1: "map StreamPosition es1 = [3, 4]"
    by (simp add: SelectRecentEvents_def SelectEarlyEvents_def selectRecentEventsSQL_def
        selectRecentEventsForSyncSQL_def selectEarlyEventsSQL_def sql_limit_def
        rowsToStreamEvents_def rowToStreamEvent_def sample_log_def sample_row_def sample_event_def)
  obtain es2 where e2: "SelectEarlyEvents sample_log ''!r'' \<lparr>Low = 0, High = 4\<rparr> 2 = Inr es2"
    and p2: "map StreamPosition es2 = [1, 3]"
    by (simp add: SelectRecentEvents_def SelectEarlyEvents_def selectRecentEventsSQL_def
        selectRecentEventsForSyncSQL_def selectEarlyEventsSQL_def sql_limit_def
        rowsToStreamEvents_def rowToStreamEvent_def sample_log_def sample_row_def sample_event_def)
  obtain es3 where e3: "SelectRecentEvents sample_log ''!r'' \<lparr>Low = 0, High = 4\<rparr> 2 False False = Inr es3"
    and p3: "map StreamPosition es3 = [4, 3]"
    by (simp add: SelectRecentEvents_def SelectEarlyEvents_def selectRecentEventsSQL_def
        selectRecentEventsForSyncSQL_def selectEarlyEventsSQL_def sql_limit_def
        rowsToStreamEvents_def rowToStreamEvent_def sample_log_def sample_row_def sample_event_def)
  from select_events_order [of sample_log "''!r''" "\<lparr>Low = 0, High = 4\<rparr>" 2 False es1 es2 es3] e1 e2 e3
  have "sorted (map StreamPosition es1)" "sorted (map StreamPosition es2)"
    "sorted (rev (map StreamPosition es3))"
    by blast+
  with e1 p1 e2 p2 e3 p3 show ?thesis by auto
qed













section \<open>State deltas in a range\<close>


















section \<open>Inserting an event twice\<close>

lemma InsertEvent_Inr:
  "InsertEvent db ev a d t x = Inr (pos, db') \<longleftrightarrow>
     (\<exists>ids' tbl'. nextStreamID (stream_ids db) = Inr (pos, ids') \<and>
        insertEventSQL (output_room_events db) (inserted_row pos ev a d t x) x = Inr tbl' \<and>
        db' = \<lparr>stream_ids = ids', output_room_events = tbl'\<rparr>)"
  by (auto simp: InsertEvent_def inserted_row_def json_Marshal_event_def json_Marshal_ids_def Let_def
      split: sum.splits prod.splits)

lemma insertEventSQL_present:
  assumes "list_ex (\<lambda>r. event_id r = event_id new) tbl"
  shows "insertEventSQL tbl new x =
           Inr (map (\<lambda>r. if event_id r = event_id new then r\<lparr>exclude_from_sync := x\<rparr> else r) tbl)"
  using assms by (simp add: insertEventSQL_def)

lemma insertEventSQL_has_event:
  assumes "insertEventSQL tbl new x = Inr tbl'"
  shows "list_ex (\<lambda>r. event_id r = event_id new) tbl'"
proof (cases "list_ex (\<lambda>r. event_id r = event_id new) tbl")
  case True
  then obtain r where r: "r \<in> set tbl" "event_id r = event_id new"
    by (auto simp: list_ex_iff)
  from True assms have "tbl' = map (\<lambda>r. if event_id r = event_id new then r\<lparr>exclude_from_sync := x\<rparr> else r) tbl"
    by (simp add: insertEventSQL_def)
  with r have "r\<lparr>exclude_from_sync := x\<rparr> \<in> set tbl'" by force
  with r(2) show ?thesis unfolding list_ex_iff by (intro bexI [of _ "r\<lparr>exclude_from_sync := x\<rparr>"]) simp_all
next
  case False
  with assms have "tbl' = tbl @ [new]"
    by (auto simp: insertEventSQL_def split: if_splits)
  then show ?thesis by (simp add: list_ex_iff)
qed

lemma InsertEvent_twice:
  assumes first: "InsertEvent db ev a1 d1 t1 x1 = Inr (p1, db1)"
    and second: "InsertEvent db1 ev a2 d2 t2 x2 = Inr (p2, db2)"
  shows "p2 = p1 + 1"
    and "output_room_events db2 =
           map (\<lambda>r. if event_id r = EventID ev then r\<lparr>exclude_from_sync := x2\<rparr> else r)
             (output_room_events db1)"
    and "length (output_room_events db2) = length (output_room_events db1)"
proof -
  from first obtain i1 tb1 where
    f: "nextStreamID (stream_ids db) = Inr (p1, i1)"
       "insertEventSQL (output_room_events db) (inserted_row p1 ev a1 d1 t1 x1) x1 = Inr tb1"
       "db1 = \<lparr>stream_ids = i1, output_room_events = tb1\<rparr>"
    unfolding InsertEvent_Inr by blast
  from second obtain i2 tb2 where
    s: "nextStreamID (stream_ids db1) = Inr (p2, i2)"
       "insertEventSQL (output_room_events db1) (inserted_row p2 ev a2 d2 t2 x2) x2 = Inr tb2"
       "db2 = \<lparr>stream_ids = i2, output_room_events = tb2\<rparr>"
    unfolding InsertEvent_Inr by blast
  from f(1) obtain c where c: "stream_ids db ''global'' = Some c" "p1 = c + 1"
    "i1 = (stream_ids db)(''global'' \<mapsto> c + 1)"
    unfolding nextStreamID_Inr by blast
  from s(1) f(3) c(3) have "p2 = (c + 1) + 1"
    unfolding nextStreamID_Inr by auto
  with c(2) show "p2 = p1 + 1" by simp
  from insertEventSQL_has_event [OF f(2)]
  have "list_ex (\<lambda>r. event_id r = event_id (inserted_row p2 ev a2 d2 t2 x2)) tb1"
    by (simp add: inserted_row_def)
  from insertEventSQL_present [OF this, of x2] s(2) f(3)
  have "tb2 = map (\<lambda>r. if event_id r = EventID ev then r\<lparr>exclude_from_sync := x2\<rparr> else r) tb1"
    by (simp add: inserted_row_def)
  with s(3) f(3) show "output_room_events db2 =
           map (\<lambda>r. if event_id r = EventID ev then r\<lparr>exclude_from_sync := x2\<rparr> else r)
             (output_room_events db1)" by simp
  then show "length (output_room_events db2) = length (output_room_events db1)" by simp
qed

lemma insertEventSQL_invariant:
  assumes "insertEventSQL tbl new x = Inr tbl'" and "distinct (map id_col tbl)"
    and "list_all row_ok tbl" and "row_ok new"
  shows "distinct (map id_col tbl') \<and> list_all row_ok tbl'"
proof (cases "list_ex (\<lambda>r. event_id r = event_id new) tbl")
  case True
  with assms(1) have t: "tbl' = map (\<lambda>r. if event_id r = event_id new then r\<lparr>exclude_from_sync := x\<rparr> else r) tbl"
    by (simp add: insertEventSQL_def)
  have "map id_col tbl' = map id_col tbl" unfolding t by (induction tbl) auto
  moreover have "list_all row_ok tbl'"
    unfolding t using assms(3) by (induction tbl) (auto simp: row_ok_def)
  ultimately show ?thesis using assms(2) by simp
next
  case False
  with assms(1) have "\<not> list_ex (\<lambda>r. id_col r = id_col new) tbl" "tbl' = tbl @ [new]"
    by (auto simp: insertEventSQL_def split: if_splits)
  with assms(2-4) show ?thesis by (auto simp: list_ex_iff)
qed

lemma InsertEvent_invariant:
  assumes "InsertEvent db ev a d t x = Inr (pos, db')"
    and "distinct (map id_col (output_room_events db))" and "list_all row_ok (output_room_events db)"
  shows "distinct (map id_col (output_room_events db')) \<and> list_all row_ok (output_room_events db')"
proof -
  from assms(1) obtain ids' tbl' where
    i: "insertEventSQL (output_room_events db) (inserted_row pos ev a d t x) x = Inr tbl'"
       "db' = \<lparr>stream_ids = ids', output_room_events = tbl'\<rparr>"
    unfolding InsertEvent_Inr by blast
  have "row_ok (inserted_row pos ev a d t x)" by (simp add: row_ok_def inserted_row_def)
  from insertEventSQL_invariant [OF i(1) assms(2,3) this] i(2) show ?thesis by simp
qed

text \<open>
  C1. Inserting the event \<open>$a\<close> twice into the freshly created database: the first call
  returns position 1 and stores one row with id 1; the second call stores no second row and
  leaves the row as it is, but returns position 2, a position at which no row resides.
\<close>

theorem InsertEvent_twice_positions:
  "\<exists>db1 db2.
     InsertEvent empty_db (sample_event ''$a'' ''!r'') [] [] None False = Inr (1, db1) \<and>
     InsertEvent db1 (sample_event ''$a'' ''!r'') [] [] None False = Inr (2, db2) \<and>
     map id_col (output_room_events db1) = [1] \<and>
     map id_col (output_room_events db2) = [1] \<and>
     output_room_events db2 = output_room_events db1"
  by (simp add: InsertEvent_def json_Marshal_event_def json_Marshal_ids_def nextStreamID_def
      increaseStreamIDStmt_def selectStreamIDStmt_def insertEventSQL_def empty_db_def
      streamIDTableSchema_def max_bigint_def sample_event_def containsURL_def)


section \<open>The rooms table\<close>

lemma SelectRoomNID_keys:
  "SelectRoomNID t roomID =
     (case filter (\<lambda>k. fst (snd k) = roomID) (map room_key (rooms t)) of
        [] \<Rightarrow> Inl ErrNoRows | k # _ \<Rightarrow> Inr (fst k))"
proof -
  have "filter (\<lambda>k. fst (snd k) = roomID) (map room_key rs) =
          map room_key (filter (\<lambda>r. rooms_room_id r = roomID) rs)" for rs
    by (induction rs) (auto simp: room_key_def)
  then show ?thesis
    by (simp add: SelectRoomNID_def room_key_def split: list.splits)
qed

lemma room_of_id_keys:
  "map_option room_key (room_of_id t roomID) =
     find (\<lambda>k. fst (snd k) = roomID) (map room_key (rooms t))"
proof -
  have "map_option room_key (find (\<lambda>r. rooms_room_id r = roomID) rs) =
          find (\<lambda>k. fst (snd k) = roomID) (map room_key rs)" for rs
    by (induction rs) (auto simp: room_key_def)
  then show ?thesis by (simp add: room_of_id_def)
qed

lemma insertRoomNIDSQL_prefix:
  "insertRoomNIDSQL t roomID v = Inr t' \<Longrightarrow> prefix (rooms t) (rooms t')"
  by (auto simp: insertRoomNIDSQL_def split: if_splits)

lemma UpdateLatestEventNIDs_keys:
  "map room_key (rooms (UpdateLatestEventNIDs f t n e l s)) = map room_key (rooms t)"
  by (simp add: UpdateLatestEventNIDs_def room_key_def comp_def)

lemma rooms_after_prefix:
  "prefix (map room_key (rooms t)) (map room_key (rooms (rooms_after f t c)))"
proof (cases c)
  case (CallInsertRoomNID roomID v)
  show ?thesis
  proof (cases "InsertRoomNID t roomID v")
    case (Inl err)
    with CallInsertRoomNID show ?thesis by simp
  next
    case (Inr res)
    then obtain nid t' where "InsertRoomNID t roomID v = Inr (nid, t')" by (cases res) auto
    moreover from this have "insertRoomNIDSQL t roomID v = Inr t'"
      by (auto simp: InsertRoomNID_def split: sum.splits)
    ultimately show ?thesis
      using CallInsertRoomNID insertRoomNIDSQL_prefix [of t roomID v t']
      by (auto simp: prefix_def)
  qed
next
  case (CallUpdateLatestEventNIDs n e l s)
  then show ?thesis by (simp add: UpdateLatestEventNIDs_keys)
qed

lemma rooms_calls_prefix:
  "prefix (map room_key (rooms t)) (map room_key (rooms (foldl (rooms_after f) t calls)))"
proof (induction calls arbitrary: t)
  case Nil
  then show ?case by simp
next
  case (Cons c calls)
  from rooms_after_prefix [of t f c] Cons.IH [of "rooms_after f t c"]
  show ?case by (auto intro: prefix_order.trans)
qed

lemma find_prefix:
  assumes "prefix ks ks'" and "find P ks = Some k"
  shows "find P ks' = Some k"
proof -
  from assms(1) obtain more where "ks' = ks @ more" by (auto simp: prefix_def)
  moreover have "find P (ks @ more) = Some k"
    using assms(2) by (induction ks) (auto split: if_splits)
  ultimately show ?thesis by simp
qed

lemma find_filter_hd:
  "find P ks = (case filter P ks of [] \<Rightarrow> None | k # _ \<Rightarrow> Some k)"
  by (induction ks) auto

lemma InsertRoomNID_Inr:
  assumes "InsertRoomNID t roomID v = Inr (nid, t')"
  shows "\<exists>r. room_of_id t' roomID = Some r \<and> room_nid r = nid \<and> rooms_room_id r = roomID"
proof -
  from assms have sel: "SelectRoomNID t' roomID = Inr nid"
    by (auto simp: InsertRoomNID_def split: sum.splits)
  then obtain r rest where f: "filter (\<lambda>r. rooms_room_id r = roomID) (rooms t') = r # rest"
    "room_nid r = nid"
    by (auto simp: SelectRoomNID_def split: list.splits)
  then have "room_of_id t' roomID = Some r"
    by (simp add: room_of_id_def find_filter_hd)
  moreover from f(1) have "rooms_room_id r = roomID"
    by (metis (mono_tags, lifting) filter_eq_ConsD)
  ultimately show ?thesis using f(2) by blast
qed

lemma InsertRoomNID_existing:
  assumes "room_of_id t roomID = Some r"
  shows "InsertRoomNID t roomID v = Inr (room_nid r, t)"
proof -
  from assms have ex: "list_ex (\<lambda>r. rooms_room_id r = roomID) (rooms t)"
    by (auto simp: room_of_id_def list_ex_iff find_Some_iff)
  from assms obtain rest where "filter (\<lambda>r. rooms_room_id r = roomID) (rooms t) = r # rest"
    by (auto simp: room_of_id_def find_filter_hd split: list.splits)
  with ex show ?thesis
    by (simp add: InsertRoomNID_def insertRoomNIDSQL_def SelectRoomNID_def)
qed

lemmas rooms_defs = InsertRoomNID_def insertRoomNIDSQL_def SelectRoomNID_def UpdateLatestEventNIDs_def
  empty_rooms_def max_bigint_def two_rooms_def one_room_def

text \<open>
  C6. Once a call of \<open>InsertRoomNID\<close> for a room ID has returned a NID, every later call for
  that room ID, with any room version and after any calls by other callers, returns the
  same NID and leaves the table as it found it; the row of the room ID keeps its NID and
  the room version it was stored with.
\<close>

theorem InsertRoomNID_converges:
  assumes first: "InsertRoomNID t roomID v = Inr (nid, t1)"
    and later: "t2 = foldl (rooms_after f) t1 calls"
  shows "InsertRoomNID t2 roomID v' = Inr (nid, t2) \<and>
         (\<exists>r1 r2. room_of_id t1 roomID = Some r1 \<and> room_of_id t2 roomID = Some r2 \<and>
            room_nid r1 = nid \<and> room_nid r2 = nid \<and>
            rooms_room_id r2 = roomID \<and> room_version r2 = room_version r1)"
proof -
  from InsertRoomNID_Inr [OF first] obtain r1 where
    r1: "room_of_id t1 roomID = Some r1" "room_nid r1 = nid" "rooms_room_id r1 = roomID"
    by blast
  then have "find (\<lambda>k. fst (snd k) = roomID) (map room_key (rooms t1)) = Some (room_key r1)"
    using room_of_id_keys [of t1 roomID] by simp
  from find_prefix [OF rooms_calls_prefix this, of f calls] later
  have "map_option room_key (room_of_id t2 roomID) = Some (room_key r1)"
    by (simp add: room_of_id_keys)
  then obtain r2 where r2: "room_of_id t2 roomID = Some r2" "room_key r2 = room_key r1"
    by auto
  from r2(2) r1 have k: "room_nid r2 = nid" "rooms_room_id r2 = roomID" "room_version r2 = room_version r1"
    by (simp_all add: room_key_def)
  from InsertRoomNID_existing [OF r2(1), of v'] k(1)
  have "InsertRoomNID t2 roomID v' = Inr (nid, t2)" by simp
  with r1 r2(1) k show ?thesis by blast
qed

theorem InsertRoomNID_converges_witness:
  "InsertRoomNID empty_rooms ''!r'' ''5'' = Inr (1, one_room) \<and>
   InsertRoomNID
     (foldl (rooms_after (\<lambda>ns. ''[7]'')) one_room
        [CallInsertRoomNID ''!q'' ''6'', CallInsertRoomNID ''!r'' ''6'',
         CallUpdateLatestEventNIDs 1 [7] 7 3])
     ''!r'' ''6'' =
   Inr (1, foldl (rooms_after (\<lambda>ns. ''[7]'')) one_room
        [CallInsertRoomNID ''!q'' ''6'', CallInsertRoomNID ''!r'' ''6'',
         CallUpdateLatestEventNIDs 1 [7] 7 3]) \<and>
   map room_version
     (rooms (foldl (rooms_after (\<lambda>ns. ''[7]'')) one_room
        [CallInsertRoomNID ''!q'' ''6'', CallInsertRoomNID ''!r'' ''6'',
         CallUpdateLatestEventNIDs 1 [7] 7 3])) = [''5'', ''6'']"
proof -
  have first: "InsertRoomNID empty_rooms ''!r'' ''5'' = Inr (1, one_room)"
    by (simp add: rooms_defs)
  have "map room_version
     (rooms (foldl (rooms_after (\<lambda>ns. ''[7]'')) one_room
        [CallInsertRoomNID ''!q'' ''6'', CallInsertRoomNID ''!r'' ''6'',
         CallUpdateLatestEventNIDs 1 [7] 7 3])) = [''5'', ''6'']"
    by (simp add: rooms_defs)
  with InsertRoomNID_converges [OF first refl] first show ?thesis by blast
qed

text \<open>
  C9. \<open>UpdateLatestEventNIDs\<close> keeps the number of rows and the counter, keeps \<open>room_nid\<close>,
  \<open>room_id\<close> and \<open>room_version\<close> of every row, leaves every row of another room as it is,
  and changes in the row of the given room only \<open>latest_event_nids\<close>, \<open>last_event_sent_nid\<close>
  and \<open>state_snapshot_nid\<close>.
\<close>

theorem UpdateLatestEventNIDs_frame:
  assumes "t' = UpdateLatestEventNIDs f t roomNID eventNIDs lastEventSentNID stateSnapshotNID"
  shows "length (rooms t') = length (rooms t) \<and>
         rooms_auto_increment t' = rooms_auto_increment t \<and>
         (\<forall>i<length (rooms t).
            room_nid (rooms t' ! i) = room_nid (rooms t ! i) \<and>
            rooms_room_id (rooms t' ! i) = rooms_room_id (rooms t ! i) \<and>
            room_version (rooms t' ! i) = room_version (rooms t ! i) \<and>
            (room_nid (rooms t ! i) \<noteq> roomNID \<longrightarrow> rooms t' ! i = rooms t ! i) \<and>
            (room_nid (rooms t ! i) = roomNID \<longrightarrow>
               rooms t' ! i = (rooms t ! i)\<lparr>latest_event_nids := f eventNIDs,
                                            last_event_sent_nid := lastEventSentNID,
                                            state_snapshot_nid := stateSnapshotNID\<rparr>))"
  unfolding assms by (simp add: UpdateLatestEventNIDs_def)

theorem UpdateLatestEventNIDs_frame_witness:
  "rooms (UpdateLatestEventNIDs (\<lambda>ns. ''[7]'') two_rooms 1 [7] 7 3) =
     [\<lparr>room_nid = 1, rooms_room_id = ''!r'', latest_event_nids = ''[7]'', last_event_sent_nid = 7,
       state_snapshot_nid = 3, room_version = ''5''\<rparr>,
      rooms two_rooms ! 1] \<and>
   room_nid (rooms two_rooms ! 0) = 1 \<and> room_nid (rooms two_rooms ! 1) \<noteq> 1"
proof -
  let ?t' = "UpdateLatestEventNIDs (\<lambda>ns. ''[7]'') two_rooms 1 [7] 7 3"
  have n: "room_nid (rooms two_rooms ! 0) = 1" "room_nid (rooms two_rooms ! 1) \<noteq> 1"
    "length (rooms two_rooms) = 2"
    by (simp_all add: two_rooms_def)
  from UpdateLatestEventNIDs_frame [OF refl, of "\<lambda>ns. ''[7]''" two_rooms 1 "[7]" 7 3] n
  have len: "length (rooms ?t') = 2"
    and r0: "rooms ?t' ! 0 = (rooms two_rooms ! 0)\<lparr>latest_event_nids := ''[7]'',
               last_event_sent_nid := 7, state_snapshot_nid := 3\<rparr>"
    and r1: "rooms ?t' ! 1 = rooms two_rooms ! 1"
    by auto
  from len have "rooms ?t' = [rooms ?t' ! 0, rooms ?t' ! 1]"
    by (cases "rooms ?t'"; cases "tl (rooms ?t')") auto
  then have "rooms ?t' = [(rooms two_rooms ! 0)\<lparr>latest_event_nids := ''[7]'',
               last_event_sent_nid := 7, state_snapshot_nid := 3\<rparr>, rooms two_rooms ! 1]"
    using r0 r1 by simp
  moreover have "(rooms two_rooms ! 0)\<lparr>latest_event_nids := ''[7]'',
               last_event_sent_nid := 7, state_snapshot_nid := 3\<rparr> =
     \<lparr>room_nid = 1, rooms_room_id = ''!r'', latest_event_nids = ''[7]'', last_event_sent_nid = 7,
       state_snapshot_nid = 3, room_version = ''5''\<rparr>"
    by (simp add: two_rooms_def)
  ultimately show ?thesis using n by simp
qed


section \<open>State snapshots\<close>

lemma insertStateSQL_no_rows:
  "insertStateSQL t roomNID arg2 = Inr (rows, t') \<Longrightarrow> rows = []"
  by (auto simp: insertStateSQL_def Let_def split: if_splits)

lemma insertState_never_returns_nid:
  "fst (insertState t roomNID stateBlockNIDs) \<noteq> Inr stateNID"
proof (cases "insertStateSQL t roomNID (pq_Int64Array (map (\<lambda>n. n) stateBlockNIDs))")
  case (Inl err)
  then show ?thesis by (simp add: insertState_def)
next
  case (Inr res)
  obtain rows t' where res: "res = (rows, t')" by (cases res)
  with Inr insertStateSQL_no_rows have "rows = []" by blast
  with Inr res show ?thesis by (simp add: insertState_def)
qed

lemma insertState_stores_row:
  assumes "sqlite_sequence t < max_bigint"
    and "\<not> list_ex (\<lambda>r. snapshot_nid r = sqlite_sequence t + 1) (state_snapshots t)"
  shows "insertState t roomNID stateBlockNIDs =
           (Inl ErrNoRows,
            \<lparr>state_snapshots = state_snapshots t @
               [\<lparr>snapshot_nid = sqlite_sequence t + 1, snapshot_room_nid = roomNID,
                 state_block_nids = Int64ArrayText stateBlockNIDs\<rparr>],
             sqlite_sequence = sqlite_sequence t + 1\<rparr>)"
  using assms by (simp add: insertState_def insertStateSQL_def pq_Int64Array_def Let_def)

text \<open>
  C8. Two calls of \<open>insertState\<close> with the same arguments on the freshly created table: each
  call stores a row of its own, with the snapshot NIDs 1 and 2, and each call returns
  \<open>sql.ErrNoRows\<close> instead of the NID of its row.
\<close>

theorem insertState_returns_no_nid:
  "insertState empty_snapshots 1 [4, 5] =
     (Inl ErrNoRows,
      \<lparr>state_snapshots =
         [\<lparr>snapshot_nid = 1, snapshot_room_nid = 1, state_block_nids = Int64ArrayText [4, 5]\<rparr>],
       sqlite_sequence = 1\<rparr>) \<and>
   insertState (snd (insertState empty_snapshots 1 [4, 5])) 1 [4, 5] =
     (Inl ErrNoRows,
      \<lparr>state_snapshots =
         [\<lparr>snapshot_nid = 1, snapshot_room_nid = 1, state_block_nids = Int64ArrayText [4, 5]\<rparr>,
          \<lparr>snapshot_nid = 2, snapshot_room_nid = 1, state_block_nids = Int64ArrayText [4, 5]\<rparr>],
       sqlite_sequence = 2\<rparr>)"
  by (simp add: insertState_def insertStateSQL_def pq_Int64Array_def empty_snapshots_def
      max_bigint_def Let_def)

lemma bulkSelectStateBlockNIDsSQL_array:
  "bulkSelectStateBlockNIDsSQL t (pq_Int64Array nids) = []"
  by (simp add: bulkSelectStateBlockNIDsSQL_def pq_Int64Array_def)

lemma bulkSelectStateBlockNIDs_result:
  "bulkSelectStateBlockNIDs t stateNIDs =
     (if stateNIDs = [] then Inr [] else Inl (StateNIDsMissing 0 (length stateNIDs)))"
  by (simp add: bulkSelectStateBlockNIDs_def bulkSelectStateBlockNIDsSQL_array)

text \<open>
  C7. The snapshot 5 is stored with the block NIDs 4 and 9, and the request for it alone
  returns the error that none of one NID was found, as does the request for a NID that is
  not stored.
\<close>

theorem bulkSelectStateBlockNIDs_finds_nothing:
  "5 \<in> stored_nids one_snapshot \<and> 7 \<notin> stored_nids one_snapshot \<and>
   bulkSelectStateBlockNIDs one_snapshot [5] = Inl (StateNIDsMissing 0 1) \<and>
   bulkSelectStateBlockNIDs one_snapshot [7] = Inl (StateNIDsMissing 0 1)"
  by (simp add: bulkSelectStateBlockNIDs_def bulkSelectStateBlockNIDsSQL_def pq_Int64Array_def
      stored_nids_def one_snapshot_def)

end
